theory Spec2Isabelle
  imports Main
begin

section \<open>Flask-Authorize: the authorization decision of \<^verbatim>\<open>flask_authorize/plugin.py\<close>\<close>

subsection \<open>Python values\<close>

text \<open>
  Actions (\<^verbatim>\<open>'read'\<close>, \<^verbatim>\<open>'update'\<close>, ...), role and group names, and the keys that
  \<^verbatim>\<open>table_key\<close> gives to a class are Python strings.
\<close>

type_synonym action = string
type_synonym key = string

text \<open>
  An attribute read through \<^verbatim>\<open>hasattr\<close> and then compared with \<^verbatim>\<open>None\<close> has three
  states: the object has no such attribute, the attribute is \<^verbatim>\<open>None\<close>, or it holds a value.
\<close>

datatype 'a attr = Absent | Null | Present 'a

text \<open>
  A Python \<^verbatim>\<open>set\<close> is a list without duplicates: \<^verbatim>\<open>set(xs)\<close> removes the duplicates,
  \<^verbatim>\<open>s.intersection(xs)\<close> keeps the members of \<^verbatim>\<open>s\<close> that occur in the iterable
  \<^verbatim>\<open>xs\<close>, and \<^verbatim>\<open>len\<close> is the length of the list.
\<close>

definition set_of :: "'a list \<Rightarrow> 'a list" where
  "set_of xs = remdups xs"

definition intersection :: "'a list \<Rightarrow> 'a list \<Rightarrow> 'a list" where
  "intersection s xs = filter (\<lambda>x. x \<in> set xs) s"

text \<open>\<^verbatim>\<open>d.get(k, default)\<close> on a dictionary.\<close>

definition dict_get :: "('k \<rightharpoonup> 'v) \<Rightarrow> 'k \<Rightarrow> 'v \<Rightarrow> 'v" where
  "dict_get d k dflt = (case d k of None \<Rightarrow> dflt | Some v \<Rightarrow> v)"

text \<open>
  The fields of an \<^verbatim>\<open>Authorizer\<close> are lists or tuples: \<^verbatim>\<open>__init__\<close> leaves both as they
  are. The two kinds have the same items, but \<^verbatim>\<open>+\<close> between a list and a tuple raises
  \<^verbatim>\<open>TypeError\<close>.
\<close>

datatype 'a pyseq = PyList "'a list" | PyTuple "'a list"

fun items :: "'a pyseq \<Rightarrow> 'a list" where
  "items (PyList xs) = xs"
| "items (PyTuple xs) = xs"

datatype error = AssertionError string | TypeError | Unauthorized

fun seq_add :: "'a pyseq \<Rightarrow> 'a pyseq \<Rightarrow> error + 'a pyseq" where
  "seq_add (PyList xs) (PyList ys) = Inr (PyList (xs @ ys))"
| "seq_add (PyTuple xs) (PyTuple ys) = Inr (PyTuple (xs @ ys))"
| "seq_add (PyList xs) (PyTuple ys) = Inl TypeError"
| "seq_add (PyTuple xs) (PyList ys) = Inl TypeError"

subsection \<open>Subjects, credentials and target objects\<close>

text \<open>
  A role or a group. \<^verbatim>\<open>cred_id\<close> is the identity of the Python object (the default
  \<^verbatim>\<open>==\<close> compares identities), \<^verbatim>\<open>name\<close> is \<^verbatim>\<open>None\<close> when the object has no
  \<^verbatim>\<open>name\<close> attribute, and \<^verbatim>\<open>str\<close> is what \<^verbatim>\<open>str(cred)\<close> returns.
\<close>

record credential =
  cred_id :: nat
  name :: "string option"
  str :: string
  restrictions :: "(key \<rightharpoonup> action list) attr"
  allowances :: "(key \<rightharpoonup> action list) attr"

text \<open>
  A user. \<^verbatim>\<open>roles\<close> and \<^verbatim>\<open>groups\<close> are \<^verbatim>\<open>None\<close> when \<^verbatim>\<open>hasattr\<close> is false.
\<close>

record subject =
  user_id :: nat
  roles :: "credential list option"
  groups :: "credential list option"

text \<open>
  An argument of the call. \<^verbatim>\<open>func_name\<close> is \<^verbatim>\<open>Some\<close> of \<^verbatim>\<open>__name__\<close> when the
  argument is a \<^verbatim>\<open>types.FunctionType\<close>; \<^verbatim>\<open>table_key\<close> is the value of
  \<^verbatim>\<open>table_key(obj.__class__)\<close>, a function of the module \<^verbatim>\<open>mixins\<close>; \<^verbatim>\<open>permissions\<close>,
  \<^verbatim>\<open>owner\<close> and \<^verbatim>\<open>group\<close> are \<^verbatim>\<open>None\<close> when \<^verbatim>\<open>hasattr\<close> is false.
\<close>

record pyobj =
  func_name :: "string option"
  table_key :: key
  permissions :: "(string \<rightharpoonup> action list) option"
  owner :: "subject option"
  group :: "credential option"

subsection \<open>\<^verbatim>\<open>has_permission\<close>\<close>

definition has_permission :: "'a list \<Rightarrow> 'a list \<Rightarrow> bool" where
  "has_permission expected actual =
     (let x = intersection (set_of expected) actual
      in length x = length expected)"

subsection \<open>\<^verbatim>\<open>user_has_role\<close> and \<^verbatim>\<open>user_in_group\<close>\<close>

text \<open>The \<^verbatim>\<open>for\<close> loop of \<^verbatim>\<open>user_has_role\<close>, over \<^verbatim>\<open>user.roles\<close>.\<close>

fun role_loop :: "credential list \<Rightarrow> string list \<Rightarrow> bool" where
  "role_loop [] rs = False"
| "role_loop (role # rest) rs =
     (let check = (case name role of Some n \<Rightarrow> n | None \<Rightarrow> str role)
      in if check \<in> set rs then True else role_loop rest rs)"

definition user_has_role :: "subject \<Rightarrow> string list \<Rightarrow> bool" where
  "user_has_role user rs =
     (case roles user of
        None \<Rightarrow> False
      | Some user_roles \<Rightarrow> role_loop user_roles rs)"

text \<open>The \<^verbatim>\<open>for\<close> loop of \<^verbatim>\<open>user_in_group\<close>, over \<^verbatim>\<open>user.groups\<close>.\<close>

fun group_loop :: "credential list \<Rightarrow> string list \<Rightarrow> bool" where
  "group_loop [] gs = False"
| "group_loop (grp # rest) gs =
     (let check = (case name grp of Some n \<Rightarrow> n | None \<Rightarrow> str grp)
      in if check \<in> set gs then True else group_loop rest gs)"

definition user_in_group :: "subject \<Rightarrow> string list \<Rightarrow> bool" where
  "user_in_group user gs =
     (case groups user of
        None \<Rightarrow> False
      | Some user_groups \<Rightarrow> group_loop user_groups gs)"

subsection \<open>\<^verbatim>\<open>user_is_restricted\<close> and \<^verbatim>\<open>user_is_allowed\<close>\<close>

text \<open>
  Both functions gather the credentials the same way: \<^verbatim>\<open>user.roles\<close> when the user has
  the attribute, then \<^verbatim>\<open>user.groups\<close> when the user has it.
\<close>

definition credentials :: "subject \<Rightarrow> credential list" where
  "credentials user =
     (case roles user of None \<Rightarrow> [] | Some rs \<Rightarrow> rs)
     @ (case groups user of None \<Rightarrow> [] | Some gs \<Rightarrow> gs)"

fun restricted_loop :: "key \<Rightarrow> action list \<Rightarrow> credential list \<Rightarrow> bool" where
  "restricted_loop k operation [] = False"
| "restricted_loop k operation (cred # rest) =
     (case restrictions cred of
        Present r \<Rightarrow>
          (let check = set_of (dict_get r k [])
           in if length (intersection check operation) \<noteq> 0 then True
              else restricted_loop k operation rest)
      | _ \<Rightarrow> restricted_loop k operation rest)"

definition user_is_restricted :: "subject \<Rightarrow> action list \<Rightarrow> pyobj \<Rightarrow> bool" where
  "user_is_restricted user operation obj =
     (let k = table_key obj; creds = credentials user
      in if length creds = 0 then False
         else restricted_loop k operation creds)"

text \<open>
  The loop of \<^verbatim>\<open>user_is_allowed\<close> that fills the list \<^verbatim>\<open>allowances\<close>. It returns
  \<^verbatim>\<open>None\<close> where the source returns \<^verbatim>\<open>True\<close> from inside the loop, and the filled
  list otherwise. \<^verbatim>\<open>dflt\<close> is the value of \<^verbatim>\<open>default_allowances()\<close>, a function of
  the module \<^verbatim>\<open>mixins\<close>.
\<close>

fun allowances_loop ::
  "key \<Rightarrow> action list \<Rightarrow> credential list \<Rightarrow> action list \<Rightarrow> action list option" where
  "allowances_loop k dflt [] acc = Some acc"
| "allowances_loop k dflt (cred # rest) acc =
     (case allowances cred of
        Absent \<Rightarrow> None
      | Null \<Rightarrow> None
      | Present a \<Rightarrow> allowances_loop k dflt rest (acc @ dict_get a k dflt))"

definition user_is_allowed :: "action list \<Rightarrow> subject \<Rightarrow> action list \<Rightarrow> pyobj \<Rightarrow> bool" where
  "user_is_allowed dflt user operation obj =
     (let k = table_key obj; creds = credentials user
      in if length creds = 0 then True
         else case allowances_loop k dflt creds [] of
                None \<Rightarrow> True
              | Some allw \<Rightarrow>
                  (let check = intersection (set_of allw) operation
                   in if length check = length operation then True else False))"

subsection \<open>\<^verbatim>\<open>Authorizer\<close>\<close>

record 'm authorizer =
  permission :: "action pyseq"
  has_role :: "string pyseq"
  in_group :: "string pyseq"
  model :: "'m pyseq"

text \<open>
  An argument of \<^verbatim>\<open>__init__\<close>: \<^verbatim>\<open>None\<close>, a list or tuple, or any other value. The
  local function \<^verbatim>\<open>_\<close> normalises it.
\<close>

datatype 'a pyarg = ArgNone | ArgSeq "'a pyseq" | ArgValue 'a

fun normalise :: "'a pyarg \<Rightarrow> 'a pyseq" where
  "normalise ArgNone = PyList []"
| "normalise (ArgValue x) = PyList [x]"
| "normalise (ArgSeq s) = s"

definition Authorizer ::
  "action pyarg \<Rightarrow> string pyarg \<Rightarrow> string pyarg \<Rightarrow> 'm pyarg \<Rightarrow> 'm authorizer" where
  "Authorizer p r g m =
     \<lparr>permission = normalise p, has_role = normalise r,
      in_group = normalise g, model = normalise m\<rparr>"

subsection \<open>\<^verbatim>\<open>Authorizer.allowed\<close>\<close>

text \<open>
  The global \<^verbatim>\<open>CURRENT_USER\<close>: \<^verbatim>\<open>None\<close> until \<^verbatim>\<open>init_app\<close> sets it, then a callable
  that returns a user or \<^verbatim>\<open>None\<close>, or raises (as \<^verbatim>\<open>flask_login_current_user\<close> does
  when Flask-Login cannot be imported). Calling \<^verbatim>\<open>None\<close> is a \<^verbatim>\<open>TypeError\<close>.
\<close>

datatype accessor = Unset | Accessor "error + subject option"

definition flask_login_current_user :: "subject option option \<Rightarrow> error + subject option" where
  "flask_login_current_user imported =
     (case imported of
        None \<Rightarrow> Inl (AssertionError
          ''Error: Flask-Authorize requires that either Flask-Login is used or that `user` is specified to authorization method'')
      | Some current_user \<Rightarrow> Inr current_user)"

text \<open>
  The keyword argument \<^verbatim>\<open>user\<close>: not given or \<^verbatim>\<open>None\<close>, a function (with what calling
  it gives), or any other object, taken as the user.
\<close>

datatype user_arg = UserNone | UserFunc "error + subject option" | UserObj subject

definition resolve_user :: "accessor \<Rightarrow> user_arg \<Rightarrow> error + subject option" where
  "resolve_user current_user kw_user =
     (case kw_user of
        UserNone \<Rightarrow> (case current_user of Unset \<Rightarrow> Inl TypeError | Accessor r \<Rightarrow> r)
      | UserFunc r \<Rightarrow> r
      | UserObj u \<Rightarrow> Inr (Some u))"

text \<open>
  The loop over \<^verbatim>\<open>args\<close>. The test \<^verbatim>\<open>isinstance(arg.__class__, six.class_types)\<close> holds
  of every object (the class of an object is a class), so only the test of the attribute
  \<^verbatim>\<open>permissions\<close> skips an argument.
\<close>

fun args_loop :: "action list \<Rightarrow> subject \<Rightarrow> action list \<Rightarrow> pyobj list \<Rightarrow> bool" where
  "args_loop dflt user operation [] = False"
| "args_loop dflt user operation (arg # rest) =
     (case permissions arg of
        None \<Rightarrow> args_loop dflt user operation rest
      | Some perms \<Rightarrow>
          if user_is_restricted user operation arg then False
          else if \<not> user_is_allowed dflt user operation arg then False
          else if has_permission operation (dict_get perms ''other'' []) then True
          else if owner arg \<noteq> None \<and> owner arg = Some user
                  \<and> has_permission operation (dict_get perms ''owner'' []) then True
          else if group arg \<noteq> None \<and> groups user \<noteq> None
                  \<and> (case (group arg, groups user) of
                        (Some g, Some gs) \<Rightarrow> g \<in> set gs
                      | _ \<Rightarrow> False)
                  \<and> has_permission operation (dict_get perms ''group'' []) then True
          else args_loop dflt user operation rest)"

definition allowed ::
  "accessor \<Rightarrow> action list \<Rightarrow> 'm authorizer \<Rightarrow> pyobj list \<Rightarrow> user_arg \<Rightarrow> error + bool" where
  "allowed current_user dflt self args kw_user =
     (case resolve_user current_user kw_user of
        Inl e \<Rightarrow> Inl e
      | Inr None \<Rightarrow> Inr False
      | Inr (Some user) \<Rightarrow>
          if length (items (has_role self)) \<noteq> 0
             \<and> user_has_role user (items (has_role self)) then Inr True
          else if length (items (in_group self)) \<noteq> 0
             \<and> user_in_group user (items (in_group self)) then Inr True
          else if length (items (permission self)) = 0 then Inr False
          else Inr (args_loop dflt user (set_of (items (permission self))) args))"

subsection \<open>\<^verbatim>\<open>Authorizer.__call__\<close> and the cache of decorated functions\<close>

text \<open>The dictionary \<^verbatim>\<open>AUTHORIZE_CACHE\<close>, from \<^verbatim>\<open>func.__name__\<close> to an \<^verbatim>\<open>Authorizer\<close>.\<close>

type_synonym 'm cache = "string \<rightharpoonup> 'm authorizer"

text \<open>
  The \<^verbatim>\<open>Authorizer\<close> built for a name that is in the cache already. Python evaluates
  the four sums in the order written, so the first \<^verbatim>\<open>TypeError\<close> is the one raised.
\<close>

definition merged :: "'m authorizer \<Rightarrow> 'm authorizer \<Rightarrow> error + 'm authorizer" where
  "merged original self =
     (case seq_add (permission original) (permission self) of
        Inl e \<Rightarrow> Inl e
      | Inr p \<Rightarrow>
     (case seq_add (has_role original) (has_role self) of
        Inl e \<Rightarrow> Inl e
      | Inr r \<Rightarrow>
     (case seq_add (in_group original) (in_group self) of
        Inl e \<Rightarrow> Inl e
      | Inr g \<Rightarrow>
     (case seq_add (model original) (model self) of
        Inl e \<Rightarrow> Inl e
      | Inr m \<Rightarrow> Inr (Authorizer (ArgSeq p) (ArgSeq r) (ArgSeq g) (ArgSeq m))))))"

text \<open>
  The decorator branch of \<^verbatim>\<open>__call__\<close> up to \<^verbatim>\<open>auth = AUTHORIZE_CACHE[func.__name__]\<close>:
  it returns \<^verbatim>\<open>auth\<close> and the cache as updated.
\<close>

definition register ::
  "'m cache \<Rightarrow> string \<Rightarrow> 'm authorizer \<Rightarrow> error + ('m authorizer \<times> 'm cache)" where
  "register cache fname self =
     (case cache fname of
        None \<Rightarrow> Inr (self, cache(fname \<mapsto> self))
      | Some original \<Rightarrow>
          (case merged original self of
             Inl e \<Rightarrow> Inl e
           | Inr updated \<Rightarrow> Inr (updated, cache(fname \<mapsto> updated))))"

text \<open>
  What \<^verbatim>\<open>__call__\<close> returns: the decision of \<^verbatim>\<open>allowed\<close>, or the wrapper \<^verbatim>\<open>inner\<close>,
  which holds the \<^verbatim>\<open>Authorizer\<close> \<^verbatim>\<open>auth\<close> it will check.
\<close>

datatype 'm outcome = Decision bool | Inner "'m authorizer"

definition call ::
  "accessor \<Rightarrow> action list \<Rightarrow> 'm authorizer \<Rightarrow> pyobj list \<Rightarrow> user_arg \<Rightarrow> 'm cache
   \<Rightarrow> error + ('m outcome \<times> 'm cache)" where
  "call current_user dflt self cargs kw_user cache =
     (case cargs of
        [] \<Rightarrow> Inl (AssertionError
          ''Authorizer needs to be passed function for decoration or objects to authorize.'')
      | first # _ \<Rightarrow>
          (case func_name first of
             None \<Rightarrow>
               (case allowed current_user dflt self cargs kw_user of
                  Inl e \<Rightarrow> Inl e
                | Inr b \<Rightarrow> Inr (Decision b, cache))
           | Some fname \<Rightarrow>
               (case register cache fname self of
                  Inl e \<Rightarrow> Inl e
                | Inr (auth, cache') \<Rightarrow> Inr (Inner auth, cache'))))"

text \<open>
  The wrapper \<^verbatim>\<open>inner\<close>: it raises \<^verbatim>\<open>Unauthorized\<close> unless \<^verbatim>\<open>auth.allowed\<close> is true
  of the arguments, and otherwise returns what the decorated function returns.
\<close>

definition inner ::
  "accessor \<Rightarrow> action list \<Rightarrow> 'm authorizer \<Rightarrow> (pyobj list \<Rightarrow> 'r) \<Rightarrow> pyobj list \<Rightarrow> error + 'r" where
  "inner current_user dflt auth func check =
     (case allowed current_user dflt auth check UserNone of
        Inl e \<Rightarrow> Inl e
      | Inr b \<Rightarrow> if \<not> b then Inl Unauthorized else Inr (func check))"

subsection \<open>The class \<^verbatim>\<open>Authorize\<close>\<close>

text \<open>
  The defaults that \<^verbatim>\<open>init_app\<close> puts in the configuration under the key
  \<^verbatim>\<open>AUTHORIZE_DEFAULT_ALLOWANCES\<close>.
\<close>

definition AUTHORIZE_DEFAULT_ALLOWANCES :: "action list" where
  "AUTHORIZE_DEFAULT_ALLOWANCES = [''read'', ''update'', ''delete'']"

text \<open>
  The properties \<^verbatim>\<open>delete\<close>, \<^verbatim>\<open>read\<close>, \<^verbatim>\<open>update\<close> and the methods
  \<^verbatim>\<open>create\<close>, \<^verbatim>\<open>has_role\<close>, \<^verbatim>\<open>in_group\<close>, each building an \<^verbatim>\<open>Authorizer\<close>.
\<close>

definition Authorize_delete :: "'m authorizer" where
  "Authorize_delete = Authorizer (ArgValue ''delete'') ArgNone ArgNone ArgNone"

definition Authorize_read :: "'m authorizer" where
  "Authorize_read = Authorizer (ArgValue ''read'') ArgNone ArgNone ArgNone"

definition Authorize_update :: "'m authorizer" where
  "Authorize_update = Authorizer (ArgValue ''update'') ArgNone ArgNone ArgNone"

definition Authorize_create :: "'m pyarg \<Rightarrow> 'm authorizer" where
  "Authorize_create m = Authorizer (ArgValue ''create'') ArgNone ArgNone m"

definition Authorize_has_role :: "string pyarg \<Rightarrow> 'm authorizer" where
  "Authorize_has_role role = Authorizer ArgNone role ArgNone ArgNone"

definition Authorize_in_group :: "string pyarg \<Rightarrow> 'm authorizer" where
  "Authorize_in_group grp = Authorizer ArgNone ArgNone grp ArgNone"

section \<open>Specification\<close>

text \<open>
  The tier checks as the specification words them, on the operation as a set of actions:
  the operation is included in the actions of the tier \<^verbatim>\<open>other\<close>; or the target has
  an owner, the owner is the subject, and the operation is included in the actions of the
  tier \<^verbatim>\<open>owner\<close>; or the target has a group, the groups of the subject include it, and
  the operation is included in the actions of the tier \<^verbatim>\<open>group\<close>. A tier that the
  permissions do not list has no action, and a target without permissions has no tier.
\<close>

definition tier_actions :: "(string \<rightharpoonup> action list) \<Rightarrow> string \<Rightarrow> action set" where
  "tier_actions perms tier = (case perms tier of None \<Rightarrow> {} | Some acts \<Rightarrow> set acts)"

definition tier_allows :: "subject \<Rightarrow> action set \<Rightarrow> pyobj \<Rightarrow> bool" where
  "tier_allows user ops t =
     (case permissions t of
        None \<Rightarrow> False
      | Some perms \<Rightarrow>
          ops \<subseteq> tier_actions perms ''other''
          \<or> (owner t = Some user \<and> ops \<subseteq> tier_actions perms ''owner'')
          \<or> ((case group t of
                 None \<Rightarrow> False
               | Some g \<Rightarrow> (case groups user of None \<Rightarrow> False | Some gs \<Rightarrow> g \<in> set gs))
              \<and> ops \<subseteq> tier_actions perms ''group''))"


section \<open>Example objects\<close>

definition admin_group :: credential where
  "admin_group = \<lparr>cred_id = 1, name = Some ''admin'', str = ''<Group 1>'',
     restrictions = Absent, allowances = Absent\<rparr>"

definition admin_role :: credential where
  "admin_role = \<lparr>cred_id = 2, name = Some ''admin'', str = ''<Role 2>'',
     restrictions = Absent, allowances = Absent\<rparr>"

definition editor_role :: credential where
  "editor_role = \<lparr>cred_id = 3, name = Some ''editor'', str = ''<Role 3>'',
     restrictions = Present [''docs'' \<mapsto> [''update'']], allowances = Absent\<rparr>"

definition reader_role :: credential where
  "reader_role = \<lparr>cred_id = 4, name = Some ''reader'', str = ''<Role 4>'',
     restrictions = Null, allowances = Present [''docs'' \<mapsto> [''read'']]\<rparr>"

definition staff_group :: credential where
  "staff_group = \<lparr>cred_id = 5, name = None, str = ''staff'',
     restrictions = Absent,
     allowances = Present [''notes'' \<mapsto> [''read'', ''update''], ''docs'' \<mapsto> [''read'']]\<rparr>"

definition group_only_user :: subject where
  "group_only_user = \<lparr>user_id = 1, roles = None, groups = Some [admin_group]\<rparr>"

definition admin_user :: subject where
  "admin_user = \<lparr>user_id = 2, roles = Some [admin_role], groups = Some []\<rparr>"

definition editor :: subject where
  "editor = \<lparr>user_id = 3, roles = Some [editor_role], groups = None\<rparr>"

definition reader :: subject where
  "reader = \<lparr>user_id = 4, roles = Some [reader_role], groups = Some [staff_group]\<rparr>"

definition plain_user :: subject where
  "plain_user = \<lparr>user_id = 5, roles = None, groups = None\<rparr>"

definition memo :: pyobj where
  "memo = \<lparr>func_name = None, table_key = ''notes'',
     permissions = Some [''other'' \<mapsto> [''read'', ''update'']], owner = None, group = None\<rparr>"

definition read_only_memo :: pyobj where
  "read_only_memo = \<lparr>func_name = None, table_key = ''notes'',
     permissions = Some [''other'' \<mapsto> [''read'']], owner = None, group = None\<rparr>"

definition doc :: pyobj where
  "doc = \<lparr>func_name = None, table_key = ''docs'',
     permissions = Some [''other'' \<mapsto> [''read'', ''update'']], owner = None, group = None\<rparr>"

definition private_doc :: pyobj where
  "private_doc = \<lparr>func_name = None, table_key = ''docs'',
     permissions = Some [''owner'' \<mapsto> [''read'', ''update'', ''delete''], ''other'' \<mapsto> []],
     owner = Some admin_user, group = Some staff_group\<rparr>"

definition own_doc :: pyobj where
  "own_doc = \<lparr>func_name = None, table_key = ''docs'',
     permissions = Some [''owner'' \<mapsto> [''read'', ''update'', ''delete''], ''other'' \<mapsto> []],
     owner = Some plain_user, group = None\<rparr>"

definition plain_value :: pyobj where
  "plain_value = \<lparr>func_name = None, table_key = ''docs'',
     permissions = None, owner = None, group = None\<rparr>"

definition view :: pyobj where
  "view = \<lparr>func_name = Some ''view'', table_key = ''function'',
     permissions = None, owner = None, group = None\<rparr>"

definition admin_only :: "string authorizer" where
  "admin_only = Authorizer (ArgValue ''delete'') (ArgValue ''admin'') ArgNone ArgNone"

definition read_admin_or_root :: "string authorizer" where
  "read_admin_or_root =
     Authorizer (ArgValue ''read'') (ArgSeq (PyTuple [''admin'', ''root''])) ArgNone ArgNone"

definition read_admin :: "string authorizer" where
  "read_admin = Authorizer (ArgValue ''read'') (ArgSeq (PyTuple [''admin''])) ArgNone ArgNone"

definition admin_or_root :: "string authorizer" where
  "admin_or_root = Authorize_has_role (ArgSeq (PyTuple [''admin'', ''root'']))"

definition needs_staff :: "string authorizer" where
  "needs_staff = Authorize_has_role (ArgValue ''staff'')"

definition needs_admin :: "string authorizer" where
  "needs_admin = Authorize_has_role (ArgValue ''admin'')"

definition may_update :: "string authorizer" where
  "may_update = Authorize_update"

definition may_read :: "string authorizer" where
  "may_read = Authorize_read"

section \<open>Properties\<close>

lemmas python_defs =
  allowed_def resolve_user_def Authorizer_def user_has_role_def user_in_group_def
  user_is_restricted_def user_is_allowed_def credentials_def has_permission_def
  set_of_def intersection_def dict_get_def tier_allows_def tier_actions_def
  Authorize_read_def Authorize_update_def Authorize_has_role_def

lemmas example_defs =
  AUTHORIZE_DEFAULT_ALLOWANCES_def admin_group_def admin_role_def editor_role_def
  reader_role_def staff_group_def group_only_user_def admin_user_def editor_def reader_def
  plain_user_def memo_def read_only_memo_def doc_def private_doc_def own_doc_def plain_value_def view_def
  admin_only_def may_update_def may_read_def needs_admin_def read_admin_or_root_def
  read_admin_def admin_or_root_def needs_staff_def

subsection \<open>Subset test\<close>

lemma length_intersection_set_of:
  "length (intersection (set_of xs) ys) = card (set xs \<inter> set ys)"
proof -
  have "distinct (filter (\<lambda>x. x \<in> set ys) (remdups xs))"
    by simp
  then have "length (filter (\<lambda>x. x \<in> set ys) (remdups xs))
             = card (set (filter (\<lambda>x. x \<in> set ys) (remdups xs)))"
    by (simp only: distinct_card)
  also have "set (filter (\<lambda>x. x \<in> set ys) (remdups xs)) = set xs \<inter> set ys"
    by auto
  finally show ?thesis
    by (simp add: intersection_def set_of_def)
qed

lemma full_intersection_iff_subset:
  assumes "distinct xs"
  shows "length (intersection (set_of xs) ys) = length xs \<longleftrightarrow> set xs \<subseteq> set ys"
proof
  assume "length (intersection (set_of xs) ys) = length xs"
  then have "card (set xs \<inter> set ys) = card (set xs)"
    using assms by (simp add: length_intersection_set_of distinct_card)
  then have "set xs \<inter> set ys = set xs"
    by (intro card_subset_eq) auto
  then show "set xs \<subseteq> set ys"
    by blast
next
  assume "set xs \<subseteq> set ys"
  then have "set xs \<inter> set ys = set xs"
    by blast
  then show "length (intersection (set_of xs) ys) = length xs"
    using assms by (simp add: length_intersection_set_of distinct_card)
qed

text \<open>
  On a list with duplicates the test fails even when every element is present, since
  \<^verbatim>\<open>len(expected)\<close> counts the duplicates; \<^verbatim>\<open>allowed\<close> calls it with a set.
\<close>

lemma has_permission_duplicates:
  "\<not> has_permission [''read'', ''read''] [''read'']"
  by (simp add: has_permission_def intersection_def set_of_def)

text \<open>
  C8. When \<^verbatim>\<open>expected\<close> is a set (a list without duplicates), \<^verbatim>\<open>has_permission\<close> is
  true exactly when every element of \<^verbatim>\<open>expected\<close> occurs in \<^verbatim>\<open>actual\<close>; it is false
  for \<^verbatim>\<open>{read, update}\<close> against \<^verbatim>\<open>{read}\<close>, true for \<^verbatim>\<open>{read}\<close> against
  \<^verbatim>\<open>{read, update}\<close>, and true for the empty set against anything.
\<close>

theorem has_permission_subset:
  "(distinct expected \<longrightarrow>
      has_permission expected actual = (set expected \<subseteq> set actual))
   \<and> \<not> has_permission [''read'', ''update''] [''read'']
   \<and> has_permission [''read''] [''read'', ''update'']
   \<and> has_permission [] actual"
proof -
  have "distinct expected \<longrightarrow>
      has_permission expected actual = (set expected \<subseteq> set actual)"
    by (simp add: has_permission_def full_intersection_iff_subset)
  moreover have "\<not> has_permission [''read'', ''update''] [''read'']"
    by (simp add: has_permission_def intersection_def set_of_def)
  moreover have "has_permission [''read''] [''read'', ''update'']"
    by (simp add: has_permission_def intersection_def set_of_def)
  moreover have "has_permission [] actual"
    by (simp add: has_permission_def intersection_def set_of_def)
  ultimately show ?thesis
    by blast
qed

theorem has_permission_subset_witness:
  "distinct [''read'', ''delete'']
   \<and> \<not> has_permission [''read'', ''delete''] [''update'', ''read'']
   \<and> \<not> set [''read'', ''delete''] \<subseteq> set [''update'', ''read'']"
  using has_permission_subset [of "[''read'', ''delete'']" "[''update'', ''read'']"]
  by simp

subsection \<open>Loops\<close>

lemma role_loop_iff:
  "role_loop cs rs \<longleftrightarrow>
     (\<exists>c\<in>set cs. (case name c of Some n \<Rightarrow> n | None \<Rightarrow> str c) \<in> set rs)"
  by (induction cs) (auto simp: Let_def)

lemma group_loop_iff:
  "group_loop cs gs \<longleftrightarrow>
     (\<exists>c\<in>set cs. (case name c of Some n \<Rightarrow> n | None \<Rightarrow> str c) \<in> set gs)"
  by (induction cs) (auto simp: Let_def)

lemma intersection_Nil_iff:
  "intersection (set_of xs) ys = [] \<longleftrightarrow> set xs \<inter> set ys = {}"
  by (auto simp: intersection_def set_of_def filter_empty_conv)

lemma restricted_loop_iff:
  "restricted_loop k operation cs \<longleftrightarrow>
     (\<exists>c\<in>set cs. \<exists>r. restrictions c = Present r
        \<and> set (dict_get r k []) \<inter> set operation \<noteq> {})"
proof (induction cs)
  case Nil
  then show ?case by simp
next
  case (Cons c cs)
  show ?case
  proof (cases "restrictions c")
    case (Present r)
    then show ?thesis
      using Cons.IH by (simp add: Let_def intersection_Nil_iff)
  qed (use Cons.IH in auto)
qed

lemma user_is_restricted_iff:
  "user_is_restricted user operation obj \<longleftrightarrow>
     (\<exists>c\<in>set (credentials user). \<exists>r. restrictions c = Present r
        \<and> set (dict_get r (table_key obj) []) \<inter> set operation \<noteq> {})"
  by (auto simp: user_is_restricted_def Let_def restricted_loop_iff)

lemma args_loop_skip:
  "args_loop dflt user operation (filter (\<lambda>a. permissions a \<noteq> None) args)
   = args_loop dflt user operation args"
  by (induction args) (auto split: option.splits)

lemma args_loop_append:
  "\<not> args_loop dflt user operation pre \<Longrightarrow>
   args_loop dflt user operation (pre @ rest) \<Longrightarrow> args_loop dflt user operation rest"
  by (induction pre) (auto split: option.splits if_splits)


lemma args_loop_deny_at:
  assumes "\<not> args_loop dflt user operation pre"
    and "permissions t \<noteq> None"
    and "user_is_restricted user operation t \<or> \<not> user_is_allowed dflt user operation t"
  shows "\<not> args_loop dflt user operation (pre @ t # post)"
proof
  assume "args_loop dflt user operation (pre @ t # post)"
  with assms(1) have "args_loop dflt user operation (t # post)"
    by (rule args_loop_append)
  with assms(2,3) show False
    by (auto split: if_splits)
qed

lemma allowed_no_bypass:
  assumes "resolve_user cu kw = Inr (Some user)"
    and "\<not> user_has_role user (items (has_role self))"
    and "\<not> user_in_group user (items (in_group self))"
  shows "allowed cu dflt self args kw =
     Inr (items (permission self) \<noteq> []
          \<and> args_loop dflt user (set_of (items (permission self))) args)"
  using assms by (simp add: allowed_def)

lemma allowances_loop_None_iff:
  "allowances_loop k dflt cs acc = None \<longleftrightarrow>
     (\<exists>c\<in>set cs. allowances c = Absent \<or> allowances c = Null)"
  by (induction cs arbitrary: acc) (auto split: attr.splits)

lemma allowances_loop_Some_set:
  "allowances_loop k dflt cs acc = Some allw \<Longrightarrow>
   set allw = set acc \<union>
     {x. \<exists>c\<in>set cs. \<exists>a. allowances c = Present a \<and> x \<in> set (dict_get a k dflt)}"
proof (induction cs arbitrary: acc)
  case Nil
  then show ?case by simp
next
  case (Cons c cs)
  from Cons.prems obtain a where a: "allowances c = Present a"
    and rest: "allowances_loop k dflt cs (acc @ dict_get a k dflt) = Some allw"
    by (auto split: attr.splits)
  from Cons.IH [OF rest] a show ?case
    by auto
qed

lemma covers_iff_subset:
  assumes "distinct ys"
  shows "length (intersection (set_of xs) ys) = length ys \<longleftrightarrow> set ys \<subseteq> set xs"
proof -
  have "length (intersection (set_of xs) ys) = card (set ys \<inter> set xs)"
    by (simp add: length_intersection_set_of Int_commute)
  also have "\<dots> = length (intersection (set_of ys) xs)"
    by (simp add: length_intersection_set_of)
  finally show ?thesis
    using full_intersection_iff_subset [OF assms, of xs] by simp
qed

lemma user_is_allowed_iff:
  assumes "credentials user \<noteq> []"
    and "\<forall>c\<in>set (credentials user). \<exists>a. allowances c = Present a"
    and "distinct operation"
  shows "user_is_allowed dflt user operation t \<longleftrightarrow>
     set operation \<subseteq> {x. \<exists>c\<in>set (credentials user). \<exists>a.
        allowances c = Present a \<and> x \<in> set (dict_get a (table_key t) dflt)}"
proof -
  have "allowances_loop (table_key t) dflt (credentials user) [] \<noteq> None"
    using assms(2) by (auto simp: allowances_loop_None_iff)
  then obtain allw where allw:
    "allowances_loop (table_key t) dflt (credentials user) [] = Some allw"
    by blast
  have "user_is_allowed dflt user operation t \<longleftrightarrow> set operation \<subseteq> set allw"
    using assms(1,3) allw by (simp add: user_is_allowed_def covers_iff_subset)
  with allowances_loop_Some_set [OF allw] show ?thesis
    by simp
qed

lemma user_is_allowed_unrestricted:
  assumes "\<exists>c\<in>set (credentials user). allowances c = Absent \<or> allowances c = Null"
  shows "user_is_allowed dflt user operation t"
proof -
  have "allowances_loop (table_key t) dflt (credentials user) [] = None"
    using assms by (simp add: allowances_loop_None_iff)
  then show ?thesis
    by (simp add: user_is_allowed_def)
qed

lemma user_is_allowed_no_credentials:
  "credentials user = [] \<Longrightarrow> user_is_allowed dflt user operation t"
  by (simp add: user_is_allowed_def)


lemma has_permission_tier:
  "distinct operation \<Longrightarrow>
   has_permission operation (dict_get perms tier []) \<longleftrightarrow>
     set operation \<subseteq> tier_actions perms tier"
  by (simp add: has_permission_def full_intersection_iff_subset dict_get_def tier_actions_def
      split: option.splits)

lemma args_loop_Cons:
  assumes "distinct operation"
  shows "args_loop dflt user operation (t # rest) =
     (if permissions t = None then args_loop dflt user operation rest
      else if user_is_restricted user operation t
              \<or> \<not> user_is_allowed dflt user operation t then False
      else tier_allows user (set operation) t \<or> args_loop dflt user operation rest)"
  by (auto simp: tier_allows_def has_permission_tier [OF assms] split: option.splits)

lemma args_loop_grant:
  assumes "distinct operation"
    and "\<forall>x\<in>set pre. permissions x \<noteq> None \<longrightarrow>
             \<not> user_is_restricted user operation x \<and> user_is_allowed dflt user operation x"
    and "\<not> user_is_restricted user operation t" "user_is_allowed dflt user operation t"
    and "tier_allows user (set operation) t"
  shows "args_loop dflt user operation (pre @ t # post)"
  using assms(2-)
proof (induction pre)
  case Nil
  then show ?case
    by (simp only: append_Nil args_loop_Cons [OF assms(1)])
       (simp add: tier_allows_def split: option.splits)
next
  case (Cons a pre)
  then have "args_loop dflt user operation (pre @ t # post)"
    by simp
  with Cons.prems(1) show ?case
    by (simp only: append_Cons args_loop_Cons [OF assms(1)]) simp
qed

lemma args_loop_first_grant:
  assumes "distinct operation" and "args_loop dflt user operation args"
  shows "\<exists>pre t post. args = pre @ t # post
     \<and> (\<forall>x\<in>set pre. permissions x \<noteq> None \<longrightarrow>
            \<not> user_is_restricted user operation x \<and> user_is_allowed dflt user operation x)
     \<and> \<not> user_is_restricted user operation t \<and> user_is_allowed dflt user operation t
     \<and> tier_allows user (set operation) t"
  using assms(2)
proof (induction args)
  case Nil
  then show ?case by simp
next
  case (Cons a args)
  let ?ok = "\<lambda>x. permissions x \<noteq> None \<longrightarrow>
      \<not> user_is_restricted user operation x \<and> user_is_allowed dflt user operation x"
  from Cons.prems have ok: "?ok a"
    by (simp only: args_loop_Cons [OF assms(1)] split: if_splits) simp_all
  show ?case
  proof (cases "permissions a \<noteq> None \<and> tier_allows user (set operation) a")
    case True
    with ok have "a # args = [] @ a # args \<and> (\<forall>x\<in>set []. ?ok x)
       \<and> \<not> user_is_restricted user operation a \<and> user_is_allowed dflt user operation a
       \<and> tier_allows user (set operation) a"
      by simp
    then show ?thesis
      by blast
  next
    case False
    with Cons.prems have "args_loop dflt user operation args"
      by (simp only: args_loop_Cons [OF assms(1)] split: if_splits)
         (auto simp: tier_allows_def)
    from Cons.IH [OF this] obtain pre t post where
      split: "args = pre @ t # post" and pre: "\<forall>x\<in>set pre. ?ok x"
      and t: "\<not> user_is_restricted user operation t" "user_is_allowed dflt user operation t"
        "tier_allows user (set operation) t"
      by blast
    from split pre ok have "a # args = (a # pre) @ t # post \<and> (\<forall>x\<in>set (a # pre). ?ok x)"
      by simp
    with t show ?thesis
      by blast
  qed
qed

lemma args_loop_iff:
  assumes "distinct operation"
  shows "args_loop dflt user operation args \<longleftrightarrow>
     (\<exists>pre t post. args = pre @ t # post
        \<and> (\<forall>x\<in>set pre. permissions x \<noteq> None \<longrightarrow>
              \<not> user_is_restricted user operation x \<and> user_is_allowed dflt user operation x)
        \<and> \<not> user_is_restricted user operation t \<and> user_is_allowed dflt user operation t
        \<and> tier_allows user (set operation) t)"
  using args_loop_first_grant [OF assms, of dflt user args]
    args_loop_grant [OF assms, of _ user dflt]
  by blast

lemma set_set_of: "set (set_of xs) = set xs" and distinct_set_of: "distinct (set_of xs)"
  by (simp_all add: set_of_def)

subsection \<open>Role bypass\<close>

text \<open>
  C1 (amended). For a resolved subject: when its collection \<^verbatim>\<open>roles\<close> holds a
  credential whose name is one of the roles of the requirement, \<^verbatim>\<open>allowed\<close> returns
  true, whatever the permissions of the requirement and whatever the targets, also with no
  target at all. When no member of the collection \<^verbatim>\<open>roles\<close> matches (by its name, or by
  its string representation when it has no name), or the subject has no such collection,
  the role bypass does not apply, whatever the subject holds as groups: \<^verbatim>\<open>allowed\<close>
  returns what it returns for the same requirement without roles.
\<close>

theorem role_bypass:
  assumes "resolve_user cu kw = Inr (Some user)"
  shows "(roles user = Some rs \<and> c \<in> set rs \<and> name c = Some n
          \<and> n \<in> set (items (has_role self))
        \<longrightarrow> allowed cu dflt self args kw = Inr True)
   \<and> ((\<forall>r\<in>set (case roles user of None \<Rightarrow> [] | Some rs \<Rightarrow> rs).
           (case name r of Some n \<Rightarrow> n | None \<Rightarrow> str r) \<notin> set (items (has_role self)))
        \<longrightarrow> allowed cu dflt self args kw
            = allowed cu dflt (self\<lparr>has_role := PyList []\<rparr>) args kw)"
proof (intro conjI impI)
  assume match: "roles user = Some rs \<and> c \<in> set rs \<and> name c = Some n
          \<and> n \<in> set (items (has_role self))"
  then have "role_loop rs (items (has_role self))"
    unfolding role_loop_iff by force
  then have "user_has_role user (items (has_role self))"
    using match by (simp add: user_has_role_def)
  moreover have "items (has_role self) \<noteq> []"
    using match by auto
  ultimately show "allowed cu dflt self args kw = Inr True"
    using assms by (simp add: allowed_def)
next
  assume none: "\<forall>r\<in>set (case roles user of None \<Rightarrow> [] | Some rs \<Rightarrow> rs).
           (case name r of Some n \<Rightarrow> n | None \<Rightarrow> str r) \<notin> set (items (has_role self))"
  then have "\<not> user_has_role user (items (has_role self))"
    by (auto simp: user_has_role_def role_loop_iff split: option.splits)
  then show "allowed cu dflt self args kw
            = allowed cu dflt (self\<lparr>has_role := PyList []\<rparr>) args kw"
    using assms by (simp add: allowed_def)
qed

theorem role_bypass_witness:
  "resolve_user Unset (UserObj admin_user) = Inr (Some admin_user)
   \<and> roles admin_user = Some [admin_role] \<and> admin_role \<in> set [admin_role]
   \<and> name admin_role = Some ''admin'' \<and> ''admin'' \<in> set (items (has_role admin_only))
   \<and> allowed Unset AUTHORIZE_DEFAULT_ALLOWANCES admin_only [] (UserObj admin_user) = Inr True
   \<and> resolve_user Unset (UserObj group_only_user) = Inr (Some group_only_user)
   \<and> roles group_only_user = None
   \<and> groups group_only_user = Some [admin_group]
   \<and> name admin_group = Some ''admin''
   \<and> allowed Unset AUTHORIZE_DEFAULT_ALLOWANCES admin_only [memo] (UserObj group_only_user)
       = allowed Unset AUTHORIZE_DEFAULT_ALLOWANCES (admin_only\<lparr>has_role := PyList []\<rparr>)
           [memo] (UserObj group_only_user)
   \<and> allowed Unset AUTHORIZE_DEFAULT_ALLOWANCES admin_only [memo] (UserObj group_only_user)
       = Inr False"
proof -
  have h: "resolve_user Unset (UserObj admin_user) = Inr (Some admin_user)"
    "resolve_user Unset (UserObj group_only_user) = Inr (Some group_only_user)"
    by (simp_all add: resolve_user_def)
  have m: "roles admin_user = Some [admin_role]" "admin_role \<in> set [admin_role]"
    "name admin_role = Some ''admin''" "''admin'' \<in> set (items (has_role admin_only))"
    "roles group_only_user = None" "groups group_only_user = Some [admin_group]"
    "name admin_group = Some ''admin''"
    by (simp_all add: example_defs Authorizer_def)
  have d: "allowed Unset AUTHORIZE_DEFAULT_ALLOWANCES (admin_only\<lparr>has_role := PyList []\<rparr>)
           [memo] (UserObj group_only_user) = Inr False"
    by (simp add: python_defs example_defs)
  from role_bypass [OF h(1), of "[admin_role]" admin_role "''admin''" admin_only
      AUTHORIZE_DEFAULT_ALLOWANCES "[]"] m
  have pos: "allowed Unset AUTHORIZE_DEFAULT_ALLOWANCES admin_only [] (UserObj admin_user)
      = Inr True"
    by simp
  from role_bypass [OF h(2), THEN conjunct2, of admin_only AUTHORIZE_DEFAULT_ALLOWANCES
      "[memo]"] m
  have neg: "allowed Unset AUTHORIZE_DEFAULT_ALLOWANCES admin_only [memo]
        (UserObj group_only_user)
       = allowed Unset AUTHORIZE_DEFAULT_ALLOWANCES (admin_only\<lparr>has_role := PyList []\<rparr>)
           [memo] (UserObj group_only_user)"
    by simp
  from h m pos neg d show ?thesis
    by simp
qed

text \<open>
  A credential held as a group does not count: a subject without the collection
  \<^verbatim>\<open>roles\<close> whose group is named \<^verbatim>\<open>admin\<close> is denied by a requirement of the role
  \<^verbatim>\<open>admin\<close>.
\<close>

theorem role_bypass_counterexample:
  "admin_group \<in> set (credentials group_only_user)
   \<and> name admin_group = Some ''admin''
   \<and> items (has_role admin_only) = [''admin'']
   \<and> allowed Unset AUTHORIZE_DEFAULT_ALLOWANCES admin_only [] (UserObj group_only_user)
       = Inr False"
  by (simp add: python_defs example_defs)

subsection \<open>Restrictions\<close>

text \<open>
  C2 (amended). When the subject is resolved, neither bypass applies, the targets before
  \<^verbatim>\<open>t\<close> do not yield an allow on their own, \<^verbatim>\<open>t\<close> has the attribute
  \<^verbatim>\<open>permissions\<close>, and some credential of the subject has a restrictions map whose entry
  for the key of \<^verbatim>\<open>t\<close> meets the required operation, then \<^verbatim>\<open>allowed\<close> returns false,
  whatever the targets after \<^verbatim>\<open>t\<close>.
\<close>

theorem restriction_short_circuit:
  assumes "resolve_user cu kw = Inr (Some user)"
    and "\<not> user_has_role user (items (has_role self))"
    and "\<not> user_in_group user (items (in_group self))"
    and "\<not> args_loop dflt user (set_of (items (permission self))) pre"
    and "permissions t \<noteq> None"
    and "c \<in> set (credentials user)" and "restrictions c = Present r"
    and "set (dict_get r (table_key t) []) \<inter> set (items (permission self)) \<noteq> {}"
  shows "allowed cu dflt self (pre @ t # post) kw = Inr False"
proof -
  have "user_is_restricted user (set_of (items (permission self))) t"
    unfolding user_is_restricted_iff using assms(6-8) by (auto simp: set_of_def)
  with assms(4,5)
  have "\<not> args_loop dflt user (set_of (items (permission self))) (pre @ t # post)"
    by (intro args_loop_deny_at) simp_all
  with assms(1-3) show ?thesis
    by (simp add: allowed_no_bypass)
qed

theorem restriction_short_circuit_witness:
  "resolve_user Unset (UserObj editor) = Inr (Some editor)
   \<and> \<not> user_has_role editor (items (has_role may_update))
   \<and> \<not> user_in_group editor (items (in_group may_update))
   \<and> \<not> args_loop AUTHORIZE_DEFAULT_ALLOWANCES editor (set_of (items (permission may_update))) []
   \<and> permissions doc \<noteq> None
   \<and> editor_role \<in> set (credentials editor)
   \<and> restrictions editor_role = Present [''docs'' \<mapsto> [''update'']]
   \<and> set (dict_get [''docs'' \<mapsto> [''update'']] (table_key doc) [])
        \<inter> set (items (permission may_update)) \<noteq> {}
   \<and> allowed Unset AUTHORIZE_DEFAULT_ALLOWANCES may_update [doc, memo] (UserObj editor)
       = Inr False
   \<and> allowed Unset AUTHORIZE_DEFAULT_ALLOWANCES may_update [memo] (UserObj editor)
       = Inr True"
proof -
  have h: "resolve_user Unset (UserObj editor) = Inr (Some editor)"
    "\<not> user_has_role editor (items (has_role may_update))"
    "\<not> user_in_group editor (items (in_group may_update))"
    "\<not> args_loop AUTHORIZE_DEFAULT_ALLOWANCES editor (set_of (items (permission may_update))) []"
    "permissions doc \<noteq> None"
    "editor_role \<in> set (credentials editor)"
    "restrictions editor_role = Present [''docs'' \<mapsto> [''update'']]"
    "set (dict_get [''docs'' \<mapsto> [''update'']] (table_key doc) [])
        \<inter> set (items (permission may_update)) \<noteq> {}"
    by (simp_all add: python_defs example_defs)
  have alone: "allowed Unset AUTHORIZE_DEFAULT_ALLOWANCES may_update [memo] (UserObj editor)
       = Inr True"
    by (simp add: python_defs example_defs)
  from restriction_short_circuit [OF h, of "[memo]"] h alone show ?thesis
    by simp
qed

text \<open>
  A restricted target that comes after a target whose tier \<^verbatim>\<open>other\<close> allows the
  operation is never reached: the call is allowed.
\<close>

theorem restriction_short_circuit_counterexample:
  "credentials editor \<noteq> []
   \<and> doc \<in> set [memo, doc]
   \<and> editor_role \<in> set (credentials editor)
   \<and> restrictions editor_role = Present [''docs'' \<mapsto> [''update'']]
   \<and> set (dict_get [''docs'' \<mapsto> [''update'']] (table_key doc) [])
        \<inter> set (items (permission may_update)) \<noteq> {}
   \<and> allowed Unset AUTHORIZE_DEFAULT_ALLOWANCES may_update [memo, doc] (UserObj editor)
       = Inr True"
  by (simp add: python_defs example_defs)


subsection \<open>Allowances\<close>

text \<open>
  C3 (amended). The allowance check of a target: a subject without credentials passes it; a
  subject passes it when any of its credentials has no attribute \<^verbatim>\<open>allowances\<close> or has
  it \<^verbatim>\<open>None\<close>; otherwise the subject passes it exactly when the operation set is
  included in the union, over all credentials, of the allowance lists found under the key
  of the target, the default allowances standing in for a missing entry. When the loop is
  at a target with permissions that fails the check, it returns false whatever the targets
  after it. So \<^verbatim>\<open>allowed\<close> returns false, whatever the targets after it, when the subject
  is resolved, neither bypass applies, the target has permissions and fails the check, and
  the targets before it do not yield an allow on their own.
\<close>

theorem allowance_check:
  "(credentials user = [] \<longrightarrow> user_is_allowed dflt user operation t)
   \<and> ((\<exists>c\<in>set (credentials user). allowances c = Absent \<or> allowances c = Null)
        \<longrightarrow> user_is_allowed dflt user operation t)
   \<and> (credentials user \<noteq> []
        \<and> (\<forall>c\<in>set (credentials user). \<exists>a. allowances c = Present a)
        \<and> distinct operation
        \<longrightarrow> user_is_allowed dflt user operation t
            = (set operation \<subseteq> {x. \<exists>c\<in>set (credentials user). \<exists>a.
                 allowances c = Present a \<and> x \<in> set (dict_get a (table_key t) dflt)}))
   \<and> (permissions t \<noteq> None \<and> \<not> user_is_allowed dflt user operation t
        \<longrightarrow> \<not> args_loop dflt user operation (t # rest))
   \<and> (resolve_user cu kw = Inr (Some user)
        \<and> \<not> user_has_role user (items (has_role self))
        \<and> \<not> user_in_group user (items (in_group self))
        \<and> \<not> args_loop dflt user (set_of (items (permission self))) pre
        \<and> permissions t \<noteq> None
        \<and> \<not> user_is_allowed dflt user (set_of (items (permission self))) t
        \<longrightarrow> allowed cu dflt self (pre @ t # post) kw = Inr False)"
proof -
  have "credentials user = [] \<longrightarrow> user_is_allowed dflt user operation t"
    by (simp add: user_is_allowed_no_credentials)
  moreover have "(\<exists>c\<in>set (credentials user). allowances c = Absent \<or> allowances c = Null)
        \<longrightarrow> user_is_allowed dflt user operation t"
    by (simp add: user_is_allowed_unrestricted)
  moreover have "credentials user \<noteq> []
        \<and> (\<forall>c\<in>set (credentials user). \<exists>a. allowances c = Present a)
        \<and> distinct operation
        \<longrightarrow> user_is_allowed dflt user operation t
            = (set operation \<subseteq> {x. \<exists>c\<in>set (credentials user). \<exists>a.
                 allowances c = Present a \<and> x \<in> set (dict_get a (table_key t) dflt)})"
    using user_is_allowed_iff [of user operation dflt t] by blast
  moreover have "permissions t \<noteq> None \<and> \<not> user_is_allowed dflt user operation t
        \<longrightarrow> \<not> args_loop dflt user operation (t # rest)"
    using args_loop_deny_at [of dflt user operation "[]" t rest] by simp
  moreover have "resolve_user cu kw = Inr (Some user)
        \<and> \<not> user_has_role user (items (has_role self))
        \<and> \<not> user_in_group user (items (in_group self))
        \<and> \<not> args_loop dflt user (set_of (items (permission self))) pre
        \<and> permissions t \<noteq> None
        \<and> \<not> user_is_allowed dflt user (set_of (items (permission self))) t
        \<longrightarrow> allowed cu dflt self (pre @ t # post) kw = Inr False"
    using args_loop_deny_at [of dflt user "set_of (items (permission self))" pre t post]
    by (simp add: allowed_no_bypass)
  ultimately show ?thesis
    by blast
qed

theorem allowance_check_witness:
  "credentials reader = [reader_role, staff_group]
   \<and> allowances reader_role = Present [''docs'' \<mapsto> [''read'']]
   \<and> allowances staff_group
       = Present [''notes'' \<mapsto> [''read'', ''update''], ''docs'' \<mapsto> [''read'']]
   \<and> distinct [''update'']
   \<and> \<not> user_is_allowed AUTHORIZE_DEFAULT_ALLOWANCES reader [''update''] doc
   \<and> \<not> set [''update''] \<subseteq> {x. \<exists>c\<in>set (credentials reader). \<exists>a.
          allowances c = Present a
          \<and> x \<in> set (dict_get a (table_key doc) AUTHORIZE_DEFAULT_ALLOWANCES)}
   \<and> permissions doc \<noteq> None
   \<and> \<not> args_loop AUTHORIZE_DEFAULT_ALLOWANCES reader [''update''] [doc, memo]
   \<and> user_is_allowed AUTHORIZE_DEFAULT_ALLOWANCES reader [''update''] memo
   \<and> user_is_allowed AUTHORIZE_DEFAULT_ALLOWANCES editor [''update''] doc
   \<and> credentials plain_user = []
   \<and> user_is_allowed AUTHORIZE_DEFAULT_ALLOWANCES plain_user [''update''] doc
   \<and> resolve_user Unset (UserObj reader) = Inr (Some reader)
   \<and> \<not> user_has_role reader (items (has_role may_update))
   \<and> \<not> user_in_group reader (items (in_group may_update))
   \<and> \<not> args_loop AUTHORIZE_DEFAULT_ALLOWANCES reader (set_of (items (permission may_update)))
         [read_only_memo]
   \<and> user_is_allowed AUTHORIZE_DEFAULT_ALLOWANCES reader
         (set_of (items (permission may_update))) read_only_memo
   \<and> \<not> user_is_allowed AUTHORIZE_DEFAULT_ALLOWANCES reader
         (set_of (items (permission may_update))) doc
   \<and> allowed Unset AUTHORIZE_DEFAULT_ALLOWANCES may_update [read_only_memo, doc, memo]
        (UserObj reader) = Inr False
   \<and> allowed Unset AUTHORIZE_DEFAULT_ALLOWANCES may_update [memo] (UserObj reader)
       = Inr True"
proof -
  have h: "credentials reader \<noteq> []"
    "\<forall>c\<in>set (credentials reader). \<exists>a. allowances c = Present a"
    "distinct [''update'']" "permissions doc \<noteq> None"
    "credentials plain_user = []"
    by (simp_all add: python_defs example_defs)
  have d: "\<not> user_is_allowed AUTHORIZE_DEFAULT_ALLOWANCES reader [''update''] doc"
    "user_is_allowed AUTHORIZE_DEFAULT_ALLOWANCES reader [''update''] memo"
    "user_is_allowed AUTHORIZE_DEFAULT_ALLOWANCES editor [''update''] doc"
    by (simp_all add: python_defs example_defs)
  have r: "resolve_user Unset (UserObj reader) = Inr (Some reader)"
    "\<not> user_has_role reader (items (has_role may_update))"
    "\<not> user_in_group reader (items (in_group may_update))"
    "\<not> args_loop AUTHORIZE_DEFAULT_ALLOWANCES reader (set_of (items (permission may_update)))
         [read_only_memo]"
    "\<not> user_is_allowed AUTHORIZE_DEFAULT_ALLOWANCES reader
         (set_of (items (permission may_update))) doc"
    "user_is_allowed AUTHORIZE_DEFAULT_ALLOWANCES reader
         (set_of (items (permission may_update))) read_only_memo"
    by (simp_all add: python_defs example_defs)
  have alone: "allowed Unset AUTHORIZE_DEFAULT_ALLOWANCES may_update [memo] (UserObj reader)
       = Inr True"
    by (simp add: python_defs example_defs)
  from allowance_check [where user = reader and dflt = AUTHORIZE_DEFAULT_ALLOWANCES
      and operation = "[''update'']" and t = doc and rest = "[memo]" and cu = Unset
      and kw = "UserObj reader" and self = may_update and pre = "[read_only_memo]"
      and post = "[memo]"]
    allowance_check [where user = plain_user and dflt = AUTHORIZE_DEFAULT_ALLOWANCES
      and operation = "[''update'']" and t = doc]
    h d r
  have "\<not> user_is_allowed AUTHORIZE_DEFAULT_ALLOWANCES reader [''update''] doc
   \<and> \<not> set [''update''] \<subseteq> {x. \<exists>c\<in>set (credentials reader). \<exists>a.
          allowances c = Present a
          \<and> x \<in> set (dict_get a (table_key doc) AUTHORIZE_DEFAULT_ALLOWANCES)}
   \<and> \<not> args_loop AUTHORIZE_DEFAULT_ALLOWANCES reader [''update''] [doc, memo]
   \<and> user_is_allowed AUTHORIZE_DEFAULT_ALLOWANCES plain_user [''update''] doc
   \<and> allowed Unset AUTHORIZE_DEFAULT_ALLOWANCES may_update ([read_only_memo] @ doc # [memo])
        (UserObj reader) = Inr False"
    by blast
  moreover have "credentials reader = [reader_role, staff_group]"
    "allowances reader_role = Present [''docs'' \<mapsto> [''read'']]"
    "allowances staff_group
       = Present [''notes'' \<mapsto> [''read'', ''update''], ''docs'' \<mapsto> [''read'']]"
    by (simp_all add: python_defs example_defs)
  ultimately show ?thesis
    using h d r alone by simp
qed

text \<open>
  A target that fails the allowance check is never reached when a target before it has a
  tier that allows: the call is allowed.
\<close>

theorem allowance_check_counterexample:
  "credentials reader = [reader_role, staff_group]
   \<and> allowances reader_role = Present [''docs'' \<mapsto> [''read'']]
   \<and> allowances staff_group
       = Present [''notes'' \<mapsto> [''read'', ''update''], ''docs'' \<mapsto> [''read'']]
   \<and> table_key doc = ''docs''
   \<and> items (permission may_update) = [''update'']
   \<and> \<not> set [''update''] \<subseteq> set [''read''] \<union> set [''read'']
   \<and> \<not> user_is_allowed AUTHORIZE_DEFAULT_ALLOWANCES reader
         (set_of (items (permission may_update))) doc
   \<and> doc \<in> set [memo, doc]
   \<and> allowed Unset AUTHORIZE_DEFAULT_ALLOWANCES may_update [memo, doc] (UserObj reader)
       = Inr True"
  by (simp add: python_defs example_defs)

subsection \<open>Tiers\<close>

text \<open>
  C4 (amended). When the subject is resolved, neither bypass applies and the requirement
  has at least one permission: at a target with permissions that passes the restriction
  and allowance checks, \<^verbatim>\<open>allowed\<close> returns true when a tier allows (the operation set
  is included in the actions of \<^verbatim>\<open>other\<close>, or of \<^verbatim>\<open>owner\<close> for the owner, or of
  \<^verbatim>\<open>group\<close> for a member of the group), and otherwise returns what it returns on the
  targets that follow; with no target left it returns false. So \<^verbatim>\<open>allowed\<close> returns
  true exactly when some target passes both checks and has a tier that allows, and no
  target with permissions before it fails a check, and it returns false otherwise.
\<close>

theorem tier_fallthrough:
  assumes "resolve_user cu kw = Inr (Some user)"
    and "\<not> user_has_role user (items (has_role self))"
    and "\<not> user_in_group user (items (in_group self))"
    and "items (permission self) \<noteq> []"
  shows "(permissions t \<noteq> None
      \<and> \<not> user_is_restricted user (set_of (items (permission self))) t
      \<and> user_is_allowed dflt user (set_of (items (permission self))) t
      \<longrightarrow> allowed cu dflt self (t # rest) kw
          = (if tier_allows user (set (items (permission self))) t then Inr True
             else allowed cu dflt self rest kw))
   \<and> allowed cu dflt self [] kw = Inr False
   \<and> allowed cu dflt self args kw = Inr
       (\<exists>pre t post. args = pre @ t # post
          \<and> (\<forall>x\<in>set pre. permissions x \<noteq> None \<longrightarrow>
                \<not> user_is_restricted user (set_of (items (permission self))) x
                \<and> user_is_allowed dflt user (set_of (items (permission self))) x)
          \<and> \<not> user_is_restricted user (set_of (items (permission self))) t
          \<and> user_is_allowed dflt user (set_of (items (permission self))) t
          \<and> tier_allows user (set (items (permission self))) t)"
proof -
  let ?op = "set_of (items (permission self))"
  have d: "distinct ?op" and s: "set ?op = set (items (permission self))"
    by (simp_all add: distinct_set_of set_set_of)
  have loop: "allowed cu dflt self xs kw = Inr (args_loop dflt user ?op xs)" for xs
    using assms by (simp add: allowed_no_bypass)
  have "permissions t \<noteq> None \<and> \<not> user_is_restricted user ?op t
      \<and> user_is_allowed dflt user ?op t
      \<longrightarrow> allowed cu dflt self (t # rest) kw
          = (if tier_allows user (set (items (permission self))) t then Inr True
             else allowed cu dflt self rest kw)"
    unfolding loop args_loop_Cons [OF d] s by simp
  moreover have "allowed cu dflt self [] kw = Inr False"
    unfolding loop by simp
  moreover have "allowed cu dflt self args kw = Inr
       (\<exists>pre t post. args = pre @ t # post
          \<and> (\<forall>x\<in>set pre. permissions x \<noteq> None \<longrightarrow>
                \<not> user_is_restricted user ?op x \<and> user_is_allowed dflt user ?op x)
          \<and> \<not> user_is_restricted user ?op t \<and> user_is_allowed dflt user ?op t
          \<and> tier_allows user (set (items (permission self))) t)"
    unfolding loop args_loop_iff [OF d, of dflt user args] s by simp
  ultimately show ?thesis
    by blast
qed

theorem tier_fallthrough_witness:
  "resolve_user Unset (UserObj plain_user) = Inr (Some plain_user)
   \<and> \<not> user_has_role plain_user (items (has_role may_read))
   \<and> \<not> user_in_group plain_user (items (in_group may_read))
   \<and> items (permission may_read) \<noteq> []
   \<and> permissions private_doc \<noteq> None
   \<and> \<not> user_is_restricted plain_user (set_of (items (permission may_read))) private_doc
   \<and> user_is_allowed AUTHORIZE_DEFAULT_ALLOWANCES plain_user
        (set_of (items (permission may_read))) private_doc
   \<and> \<not> tier_allows plain_user (set (items (permission may_read))) private_doc
   \<and> tier_allows plain_user (set (items (permission may_read))) own_doc
   \<and> allowed Unset AUTHORIZE_DEFAULT_ALLOWANCES may_read [private_doc, own_doc]
        (UserObj plain_user) = Inr True
   \<and> allowed Unset AUTHORIZE_DEFAULT_ALLOWANCES may_read [private_doc]
        (UserObj plain_user) = Inr False"
proof -
  have h: "resolve_user Unset (UserObj plain_user) = Inr (Some plain_user)"
    "\<not> user_has_role plain_user (items (has_role may_read))"
    "\<not> user_in_group plain_user (items (in_group may_read))"
    "items (permission may_read) \<noteq> []"
    by (simp_all add: python_defs example_defs)
  have t: "permissions private_doc \<noteq> None"
    "\<not> user_is_restricted plain_user (set_of (items (permission may_read))) private_doc"
    "user_is_allowed AUTHORIZE_DEFAULT_ALLOWANCES plain_user
        (set_of (items (permission may_read))) private_doc"
    "\<not> tier_allows plain_user (set (items (permission may_read))) private_doc"
    "permissions own_doc \<noteq> None"
    "\<not> user_is_restricted plain_user (set_of (items (permission may_read))) own_doc"
    "user_is_allowed AUTHORIZE_DEFAULT_ALLOWANCES plain_user
        (set_of (items (permission may_read))) own_doc"
    "tier_allows plain_user (set (items (permission may_read))) own_doc"
    by (simp_all add: python_defs example_defs)
  note step = tier_fallthrough [OF h, THEN conjunct1, rule_format]
    and nil = tier_fallthrough [OF h, THEN conjunct2, THEN conjunct1]
  from step [where t = own_doc and dflt = AUTHORIZE_DEFAULT_ALLOWANCES and rest = "[]"] nil t
  have last: "allowed Unset AUTHORIZE_DEFAULT_ALLOWANCES may_read [own_doc]
        (UserObj plain_user) = Inr True"
    by simp
  from step [where t = private_doc and dflt = AUTHORIZE_DEFAULT_ALLOWANCES
      and rest = "[own_doc]"] t last
  have both: "allowed Unset AUTHORIZE_DEFAULT_ALLOWANCES may_read [private_doc, own_doc]
        (UserObj plain_user) = Inr True"
    by simp
  from step [where t = private_doc and dflt = AUTHORIZE_DEFAULT_ALLOWANCES and rest = "[]"] nil t
  have alone: "allowed Unset AUTHORIZE_DEFAULT_ALLOWANCES may_read [private_doc]
        (UserObj plain_user) = Inr False"
    by simp
  from h t both alone show ?thesis
    by simp
qed

text \<open>
  A requirement without permissions never reaches the tiers: a subject without the role
  \<^verbatim>\<open>admin\<close> is denied by the requirement \<^verbatim>\<open>has_role('admin')\<close> on a target that is
  neither restricted nor disallowed and whose tier \<^verbatim>\<open>other\<close> includes the (empty)
  operation set.
\<close>

theorem tier_fallthrough_counterexample:
  "resolve_user Unset (UserObj plain_user) = Inr (Some plain_user)
   \<and> permissions memo = Some [''other'' \<mapsto> [''read'', ''update'']]
   \<and> set (items (permission needs_admin)) \<subseteq> set [''read'', ''update'']
   \<and> tier_allows plain_user (set (items (permission needs_admin))) memo
   \<and> \<not> user_is_restricted plain_user (set_of (items (permission needs_admin))) memo
   \<and> user_is_allowed AUTHORIZE_DEFAULT_ALLOWANCES plain_user
        (set_of (items (permission needs_admin))) memo
   \<and> allowed Unset AUTHORIZE_DEFAULT_ALLOWANCES needs_admin [memo] (UserObj plain_user)
       = Inr False"
  by (simp add: python_defs example_defs)

subsection \<open>The cache of decorated functions\<close>









subsection \<open>Anonymous subjects\<close>

text \<open>
  C6. When the user resolves to \<^verbatim>\<open>None\<close>, \<^verbatim>\<open>allowed\<close> returns false (a result, not an
  error), whatever the requirement and the targets.
\<close>

theorem anonymous_deny:
  "resolve_user cu kw = Inr None \<Longrightarrow> allowed cu dflt self args kw = Inr False"
  by (simp add: allowed_def)

theorem anonymous_deny_witness:
  "resolve_user (Accessor (Inr None)) UserNone = Inr None
   \<and> allowed (Accessor (Inr None)) AUTHORIZE_DEFAULT_ALLOWANCES may_read [memo] UserNone
       = Inr False
   \<and> allowed (Accessor (Inr (Some plain_user))) AUTHORIZE_DEFAULT_ALLOWANCES may_read [memo]
        UserNone = Inr True"
proof -
  have h: "resolve_user (Accessor (Inr None)) UserNone = Inr None"
    by (simp add: resolve_user_def)
  have "allowed (Accessor (Inr (Some plain_user))) AUTHORIZE_DEFAULT_ALLOWANCES may_read [memo]
        UserNone = Inr True"
    by (simp add: python_defs example_defs)
  with anonymous_deny [OF h, of AUTHORIZE_DEFAULT_ALLOWANCES may_read "[memo]"] h
  show ?thesis
    by simp
qed

subsection \<open>Targets without permissions\<close>

lemma allowed_filter:
  "allowed cu dflt self (filter (\<lambda>a. permissions a \<noteq> None) args) kw
   = allowed cu dflt self args kw"
  by (simp only: allowed_def args_loop_skip)

text \<open>
  C7. A target without the attribute \<^verbatim>\<open>permissions\<close> does not change the result of
  \<^verbatim>\<open>allowed\<close>: the result is the same with it and without it.
\<close>

theorem no_permissions_transparent:
  "permissions t = None \<Longrightarrow>
   allowed cu dflt self (xs @ t # ys) kw = allowed cu dflt self (xs @ ys) kw"
proof -
  assume "permissions t = None"
  then have "filter (\<lambda>a. permissions a \<noteq> None) (xs @ t # ys)
     = filter (\<lambda>a. permissions a \<noteq> None) (xs @ ys)"
    by simp
  then show ?thesis
    using allowed_filter [of cu dflt self "xs @ t # ys" kw]
      allowed_filter [of cu dflt self "xs @ ys" kw]
    by simp
qed

theorem no_permissions_transparent_witness:
  "permissions plain_value = None
   \<and> allowed Unset AUTHORIZE_DEFAULT_ALLOWANCES may_read [private_doc, plain_value, own_doc]
        (UserObj plain_user) = Inr True
   \<and> allowed Unset AUTHORIZE_DEFAULT_ALLOWANCES may_read [private_doc, own_doc]
        (UserObj plain_user) = Inr True"
proof -
  have h: "permissions plain_value = None"
    by (simp add: plain_value_def)
  have "allowed Unset AUTHORIZE_DEFAULT_ALLOWANCES may_read [private_doc, own_doc]
        (UserObj plain_user) = Inr True"
    by (simp add: python_defs example_defs)
  with no_permissions_transparent [OF h, of Unset AUTHORIZE_DEFAULT_ALLOWANCES may_read
      "[private_doc]" "[own_doc]" "UserObj plain_user"] h
  show ?thesis
    by simp
qed

subsection \<open>Calling an \<^verbatim>\<open>Authorizer\<close> without arguments\<close>

text \<open>
  C9 (amended). Calling an \<^verbatim>\<open>Authorizer\<close> with no positional argument raises an
  \<^verbatim>\<open>AssertionError\<close> with the message
  \<^verbatim>\<open>Authorizer needs to be passed function for decoration or objects to authorize.\<close>
\<close>

theorem call_without_arguments:
  "call cu dflt self [] kw cache = Inl (AssertionError
     ''Authorizer needs to be passed function for decoration or objects to authorize.'')"
  by (simp add: call_def)

text \<open>
  The message of that error is not
  \<^verbatim>\<open>needs either a callable to decorate or objects to authorize\<close>.
\<close>

theorem call_without_arguments_counterexample:
  "call Unset AUTHORIZE_DEFAULT_ALLOWANCES may_read [] UserNone Map.empty
   = Inl (AssertionError
       ''Authorizer needs to be passed function for decoration or objects to authorize.'')
   \<and> ''Authorizer needs to be passed function for decoration or objects to authorize.''
       \<noteq> ''needs either a callable to decorate or objects to authorize''"
  by (simp add: call_def)

subsection \<open>The name of a credential\<close>

text \<open>
  C10. \<^verbatim>\<open>user_has_role\<close> is true exactly when the subject has the collection
  \<^verbatim>\<open>roles\<close> and one of its members matches: by its name when it has one, by its string
  representation when it has none. \<^verbatim>\<open>user_in_group\<close> is the same over \<^verbatim>\<open>groups\<close>.
\<close>

theorem credential_name_fallback:
  "(user_has_role user rs \<longleftrightarrow>
      (\<exists>cs. roles user = Some cs
         \<and> (\<exists>c\<in>set cs. (\<exists>n. name c = Some n \<and> n \<in> set rs)
                        \<or> (name c = None \<and> str c \<in> set rs))))
   \<and> (user_in_group user gs \<longleftrightarrow>
      (\<exists>cs. groups user = Some cs
         \<and> (\<exists>c\<in>set cs. (\<exists>n. name c = Some n \<and> n \<in> set gs)
                        \<or> (name c = None \<and> str c \<in> set gs))))"
proof -
  have check: "(case name c of Some n \<Rightarrow> n | None \<Rightarrow> str c) \<in> set xs \<longleftrightarrow>
      (\<exists>n. name c = Some n \<and> n \<in> set xs) \<or> (name c = None \<and> str c \<in> set xs)"
    for c :: credential and xs
    by (cases "name c") simp_all
  show ?thesis
    by (simp add: user_has_role_def user_in_group_def role_loop_iff group_loop_iff check
        split: option.splits)
qed

theorem credential_name_fallback_witness:
  "\<not> user_has_role admin_user [''<Role 2>'']
   \<and> user_has_role admin_user [''admin'']
   \<and> user_in_group reader [''staff'']
   \<and> \<not> user_has_role group_only_user [''admin'']
   \<and> \<not> user_in_group editor [''editor'']"
  using credential_name_fallback [of admin_user "[''<Role 2>'']" "[]"]
    credential_name_fallback [of admin_user "[''admin'']" "[]"]
    credential_name_fallback [of group_only_user "[''admin'']" "[]"]
    credential_name_fallback [of reader "[]" "[''staff'']"]
    credential_name_fallback [of editor "[]" "[''editor'']"]
  by (simp add: example_defs)

end
